theory Spec2Isabelle
  imports Main "HOL-Library.Sublist"
begin

section \<open>Python strings\<close>

text \<open>
  A Python \<open>str\<close> is modelled as a \<open>string\<close>, one \<open>char\<close> per code point
  (code points 0 to 255). \<open>len\<close> is \<open>length\<close>, \<open>+\<close> is \<open>@\<close>.
\<close>

type_synonym bytes = string

text \<open>\<open>str.isspace\<close> on one code point: the whitespace code points below 256.\<close>

definition is_space :: "char \<Rightarrow> bool" where
  "is_space c =
     (let n = (of_char c :: nat)
      in (9 \<le> n \<and> n \<le> 13) \<or> (28 \<le> n \<and> n \<le> 32) \<or> n = 133 \<or> n = 160)"

text \<open>\<open>s.strip()\<close>: leading and trailing whitespace removed.\<close>

definition strip :: "string \<Rightarrow> string" where
  "strip s = rev (dropWhile is_space (rev (dropWhile is_space s)))"

text \<open>
  \<open>s.lower()\<close>, code point by code point: \<open>A\<close> to \<open>Z\<close> and the capital letters of
  Latin-1 (192 to 222 without the multiplication sign 215) move up by 32.
\<close>

definition lower_char :: "char \<Rightarrow> char" where
  "lower_char c =
     (let n = (of_char c :: nat)
      in if (65 \<le> n \<and> n \<le> 90) \<or> (192 \<le> n \<and> n \<le> 222 \<and> n \<noteq> 215)
         then char_of (n + 32) else c)"

definition lower :: "string \<Rightarrow> string" where
  "lower s = map lower_char s"

text \<open>\<open>s.endswith(suf)\<close> and \<open>s.endswith((suf1, suf2, ...))\<close>.\<close>

definition endswith :: "string \<Rightarrow> string \<Rightarrow> bool" where
  "endswith s suf = (length suf \<le> length s \<and> drop (length s - length suf) s = suf)"

definition endswith_any :: "string \<Rightarrow> string list \<Rightarrow> bool" where
  "endswith_any s sufs = list_ex (endswith s) sufs"

text \<open>\<open>sub in s\<close>: \<open>sub\<close> occurs in \<open>s\<close> as a contiguous substring.\<close>

fun py_in :: "string \<Rightarrow> string \<Rightarrow> bool" where
  "py_in sub [] = (sub = [])"
| "py_in sub (c # cs) = (prefix sub (c # cs) \<or> py_in sub cs)"

text \<open>
  \<open>s.split(sep, 1)\<close> for a non-empty \<open>sep\<close>: the text before the first occurrence of
  \<open>sep\<close> and the text after it, or \<open>s\<close> alone when \<open>sep\<close> does not occur.
\<close>

fun split1 :: "string \<Rightarrow> string \<Rightarrow> string list" where
  "split1 sep [] = [[]]"
| "split1 sep (c # cs) =
     (if prefix sep (c # cs) then [[], drop (length sep) (c # cs)]
      else (case split1 sep cs of [] \<Rightarrow> [] | x # xs \<Rightarrow> (c # x) # xs))"

text \<open>
  \<open>s[:k]\<close>: the first \<open>k\<close> code points, and for a negative \<open>k\<close> all but the last
  \<open>-k\<close>.
\<close>

definition slice_to :: "string \<Rightarrow> int \<Rightarrow> string" where
  "slice_to s k = (if 0 \<le> k then take (nat k) s else take (length s - nat (- k)) s)"

section \<open>Text files\<close>

text \<open>
  The cursor file is opened in text mode with the default \<open>newline=None\<close>. On
  writing, every line feed is replaced by \<open>os.linesep\<close>, which is a line feed on
  POSIX and carriage return plus line feed on Windows. On reading, every carriage
  return plus line feed, and every other carriage return, becomes one line feed. The
  encoding is taken to give back the code points that were written.
\<close>

abbreviation LF :: char where "LF \<equiv> CHR 0x0A"

abbreviation CR :: char where "CR \<equiv> CHR 0x0D"

datatype platform = Posix | Windows

fun os_linesep :: "platform \<Rightarrow> string" where
  "os_linesep Posix = [LF]"
| "os_linesep Windows = [CR, LF]"

definition write_newlines :: "platform \<Rightarrow> string \<Rightarrow> string" where
  "write_newlines os s = concat (map (\<lambda>c. if c = LF then os_linesep os else [c]) s)"

fun read_newlines :: "string \<Rightarrow> string" where
  "read_newlines [] = []"
| "read_newlines [c] = (if c = CR then [LF] else [c])"
| "read_newlines (c # d # cs) =
     (if c = CR then (if d = LF then LF # read_newlines cs else LF # read_newlines (d # cs))
      else c # read_newlines (d # cs))"

section \<open>Configuration\<close>

text \<open>
  The \<open>settings\<close> object. \<open>SKIP_TAG\<close> and \<open>SPLITTER\<close> are read with
  \<open>settings.get\<close>, which gives \<open>None\<close> for an option that is not set.
\<close>

record settings =
  FEED_URL :: string
  HANDLE :: string
  PASSWORD :: string
  START_POST_DATE :: string
  INTERVAL :: nat
  LAST_POSTED_FILE :: string
  DATE_FORMAT :: string
  SKIP_TAG :: "string option"
  SPLITTER :: "string option"

section \<open>The message\<close>

text \<open>
  \<open>client_utils.TextBuilder\<close>: a sequence of plain text and link segments; the
  rendered text of the post is the concatenation of the segments' visible texts.
\<close>

datatype segment = Text string | Link string string

type_synonym text_builder = "segment list"

fun segment_text :: "segment \<Rightarrow> string" where
  "segment_text (Text s) = s"
| "segment_text (Link label uri) = label"

definition build_text :: "text_builder \<Rightarrow> string" where
  "build_text tb = concat (map segment_text tb)"

definition truncate_text :: "settings \<Rightarrow> string \<Rightarrow> string \<Rightarrow> int \<Rightarrow> text_builder" where
  "truncate_text cfg description link limit =
     (let description =
            (case SPLITTER cfg of
               None \<Rightarrow> description
             | Some splitter \<Rightarrow>
                 if splitter \<noteq> [] \<and> py_in splitter description
                 then strip (split1 splitter description ! 1)
                 else description);
          link_text = ''Read post'';
          max_description_length = limit - int (length link_text);
          description =
            (if int (length description) > max_description_length
             then slice_to description max_description_length
             else description)
      in [Text (description @ '' ''), Link link_text link])"

section \<open>Errors\<close>

text \<open>
  The exceptions that end a run: \<open>ValueError\<close> from \<open>datetime.strptime\<close>,
  \<open>AttributeError\<close> from a method call on \<open>None\<close>, \<open>KeyError\<close> from a missing
  dictionary key, and the failures of the three network collaborators. Nothing in \<open>main\<close> catches any of them.
\<close>

datatype error =
  ValueError | AttributeError | KeyError | HttpError | LoginError | PublishError

definition is_image :: "string option \<Rightarrow> error + bool" where
  "is_image url =
     (case url of
        None \<Rightarrow> Inl AttributeError
      | Some u \<Rightarrow> Inr (endswith_any (lower u) [''.jpg'', ''.jpeg'', ''.png'', ''.gif'']))"

section \<open>Feed entries\<close>

text \<open>
  An entry of the parsed feed. \<open>title\<close>, \<open>link\<close>, \<open>published\<close> and
  \<open>description\<close> are read as attributes and are taken to be present in every
  entry; the two media keys are read with \<open>in\<close> and \<open>.get\<close>, so each may be
  absent. A media candidate is a dictionary whose \<open>"url"\<close> key may be absent.
\<close>

datatype media = Media (url: "string option")

record entry =
  title :: string
  link :: string
  published :: string
  description :: string
  media_content :: "media list option"
  enclosures :: "media list option"

section \<open>External collaborators and observable events\<close>

datatype client = Client (logged_in: bool)

text \<open>The two calls of the posting client: \<open>send_post\<close> and \<open>send_image\<close>.\<close>

datatype post = SendPost text_builder | SendImage text_builder bytes string

datatype login_result = LoginOk | RequestException string | OtherException

text \<open>
  What the outside world answers during one run. \<open>strptime w s fmt\<close> is
  \<open>datetime.strptime(s, fmt)\<close> as an instant on a linear time scale, \<open>None\<close> when it
  raises \<open>ValueError\<close>. \<open>httpx_get w url\<close> is the status code and the content of the
  response, \<open>None\<close> when the request raises. \<open>login w n\<close> is the outcome of the
  \<open>n\<close>-th call of \<open>client.login\<close>. \<open>send_ok w c p\<close> tells whether the posting call
  \<open>p\<close> made with client \<open>c\<close> returns (rather than raises). \<open>os_name w\<close> is the
  platform the program runs on.
\<close>

record world =
  feedparser_parse :: "string \<Rightarrow> entry list"
  strptime :: "string \<Rightarrow> string \<Rightarrow> int option"
  httpx_get :: "string \<Rightarrow> (nat \<times> bytes) option"
  login :: "nat \<Rightarrow> login_result"
  send_ok :: "client \<Rightarrow> post \<Rightarrow> bool"
  os_name :: platform

text \<open>
  The calls a run makes on the outside world, in order. \<open>Publish e p\<close> is a posting
  call \<open>p\<close> that returned, made while the loop variable \<open>entry\<close> was \<open>e\<close>;
  \<open>Save s\<close> is a write of \<open>s\<close> to the cursor file. Console output is not modelled.
\<close>

datatype event =
    HttpGet string
  | LoginAttempt
  | Sleep nat
  | Publish entry post
  | Save string

text \<open>
  The state a run changes: the characters stored in the file \<open>LAST_POSTED_FILE\<close>
  (\<open>None\<close> when the file does not exist) and the number of login calls made so far.
  Opening, reading and writing the file are taken to succeed.
\<close>

record state =
  last_posted_file :: "string option"
  logins :: nat

section \<open>Cursor store\<close>

text \<open>\<open>file.read().strip()\<close> on the file opened with mode \<open>"r"\<close>.\<close>

definition read_last_posted_date :: "state \<Rightarrow> string option" where
  "read_last_posted_date st =
     (case last_posted_file st of
        Some content \<Rightarrow> Some (strip (read_newlines content))
      | None \<Rightarrow> None)"

text \<open>
  \<open>file.write(pub_date)\<close> on the file opened with mode \<open>"w"\<close>, which empties it
  first. The event records the string passed to \<open>write\<close>.
\<close>

definition save_last_posted_date :: "world \<Rightarrow> string \<Rightarrow> state \<Rightarrow> state \<times> event list" where
  "save_last_posted_date w pub_date st =
     (st\<lparr>last_posted_file := Some (write_newlines (os_name w) pub_date)\<rparr>, [Save pub_date])"

section \<open>Image download and posting\<close>

definition download_image :: "world \<Rightarrow> string \<Rightarrow> event list \<times> (error + bytes option)" where
  "download_image w u =
     ([HttpGet u],
      case httpx_get w u of
        None \<Rightarrow> Inl HttpError
      | Some (status_code, content) \<Rightarrow>
          Inr (if status_code = 200 then Some content else None))"

text \<open>
  \<open>post_to_bluesky\<close> chooses the posting call (\<open>img\<close> is the parameter
  \<open>image\<close>); \<open>if image:\<close> is false for \<open>None\<close> and for empty content.
\<close>

definition post_to_bluesky :: "text_builder \<Rightarrow> bytes option \<Rightarrow> post" where
  "post_to_bluesky message img =
     (case img of
        Some content \<Rightarrow>
          if content \<noteq> [] then SendImage message content ''Image coming from the Fediverse''
          else SendPost message
      | None \<Rightarrow> SendPost message)"

section \<open>Session acquisition\<close>

text \<open>
  The loop of \<open>get_client\<close>. One iteration binds \<open>client\<close> to a fresh
  \<open>Client()\<close> and then calls \<open>login\<close>; a \<open>RequestException\<close> is caught, followed by
  a sleep of 86400 seconds when its message contains \<open>RateLimitExceeded\<close>, and the
  loop continues with its test \<open>client is None\<close>. Any other exception leaves the
  function.
\<close>

function get_client_loop ::
  "world \<Rightarrow> client option \<Rightarrow> state \<Rightarrow> event list \<Rightarrow> state \<times> event list \<times> (error + client)" where
  "get_client_loop w client st evs =
     (case client of
        None \<Rightarrow>
          (let st' = st\<lparr>logins := Suc (logins st)\<rparr>
           in case login w (logins st) of
                LoginOk \<Rightarrow> get_client_loop w (Some (Client True)) st' (evs @ [LoginAttempt])
              | RequestException msg \<Rightarrow>
                  get_client_loop w (Some (Client False)) st'
                    (evs @ [LoginAttempt] @
                       (if py_in ''RateLimitExceeded'' msg then [Sleep 86400] else []))
              | OtherException \<Rightarrow> (st', evs @ [LoginAttempt], Inl LoginError))
      | Some c \<Rightarrow> (st, evs, Inr c))"
  by pat_completeness auto
termination
  by (relation "measure (\<lambda>(w, client, st, evs). if client = None then 1 else 0)") auto

definition get_client :: "world \<Rightarrow> state \<Rightarrow> state \<times> event list \<times> (error + client)" where
  "get_client w st = get_client_loop w None st []"

section \<open>The synchronization loop\<close>

text \<open>
  Lines 142 to 152 of \<open>main\<close>: the media key is \<open>enclosures\<close> when the entry has
  that key and \<open>media_content\<close> otherwise; \<open>entry.get(media_key)\<close> is false when
  the key is absent or the list is empty, and then \<open>is_image\<close> is not called. The
  result is the value of the variable \<open>image\<close>.
\<close>

definition media_key_get :: "entry \<Rightarrow> media list option" where
  "media_key_get e =
     (case enclosures e of Some ms \<Rightarrow> Some ms | None \<Rightarrow> media_content e)"

definition main_media :: "world \<Rightarrow> entry \<Rightarrow> event list \<times> (error + bytes option)" where
  "main_media w e =
     (case media_key_get e of
        None \<Rightarrow> ([], Inr None)
      | Some [] \<Rightarrow> ([], Inr None)
      | Some (m # ms) \<Rightarrow>
          (case is_image (url m) of
             Inl err \<Rightarrow> ([], Inl err)
           | Inr False \<Rightarrow> ([], Inr None)
           | Inr True \<Rightarrow>
               (case url m of
                  None \<Rightarrow> ([], Inl KeyError)
                | Some u \<Rightarrow> download_image w u)))"

text \<open>The test of line 128: a skip tag is configured, not empty, and in the description.\<close>

definition skip_tagged :: "settings \<Rightarrow> entry \<Rightarrow> bool" where
  "skip_tagged cfg e =
     (case SKIP_TAG cfg of
        None \<Rightarrow> False
      | Some skip_tag \<Rightarrow> skip_tag \<noteq> [] \<and> py_in skip_tag (description e))"

text \<open>One conjunct of the test of line 134: \<open>not bound or pub_date > bound\<close>.\<close>

definition after_bound :: "int option \<Rightarrow> int \<Rightarrow> bool" where
  "after_bound bound pub_date = (case bound of None \<Rightarrow> True | Some d \<Rightarrow> pub_date > d)"

text \<open>
  The body of the \<open>for\<close> loop, lines 127 to 160, for the loop variable \<open>e\<close>. The
  local variable \<open>client\<close> and the state go in and come out, with the events of this
  iteration and the exception that ended it, if any.
\<close>

definition main_body ::
  "settings \<Rightarrow> world \<Rightarrow> int option \<Rightarrow> int option \<Rightarrow> entry \<Rightarrow> client option \<times> state
     \<Rightarrow> (client option \<times> state) \<times> event list \<times> error option" where
  "main_body cfg w last_posted_date start_post_date e cs =
     (case cs of (client, st) \<Rightarrow>
      if skip_tagged cfg e then (cs, [], None)
      else
        (case strptime w (published e) (DATE_FORMAT cfg) of
           None \<Rightarrow> (cs, [], Some ValueError)
         | Some pub_date \<Rightarrow>
             if after_bound last_posted_date pub_date \<and> after_bound start_post_date pub_date
             then
               (let message = truncate_text cfg (title e) (link e) 300
                in case main_media w e of
                     (evs1, Inl err) \<Rightarrow> (cs, evs1, Some err)
                   | (evs1, Inr img) \<Rightarrow>
                       (case (case client of
                                Some c \<Rightarrow> (st, [], Inr c)
                              | None \<Rightarrow> get_client w st) of
                          (st2, evs2, Inl err) \<Rightarrow> ((client, st2), evs1 @ evs2, Some err)
                        | (st2, evs2, Inr c) \<Rightarrow>
                            (let p = post_to_bluesky message img
                             in if send_ok w c p
                                then (case save_last_posted_date w (published e) st2 of
                                        (st3, evs3) \<Rightarrow>
                                          ((Some c, st3), evs1 @ evs2 @ [Publish e p] @ evs3, None))
                                else ((Some c, st2), evs1 @ evs2, Some PublishError))))
             else (cs, [], None)))"

text \<open>The \<open>for\<close> loop over the entries in the order given; it stops at an exception.\<close>

fun main_loop ::
  "settings \<Rightarrow> world \<Rightarrow> int option \<Rightarrow> int option \<Rightarrow> entry list \<Rightarrow> client option \<times> state
     \<Rightarrow> (client option \<times> state) \<times> event list \<times> error option" where
  "main_loop cfg w last_posted_date start_post_date [] cs = (cs, [], None)"
| "main_loop cfg w last_posted_date start_post_date (e # es) cs =
     (case main_body cfg w last_posted_date start_post_date e cs of
        (cs', evs, Some err) \<Rightarrow> (cs', evs, Some err)
      | (cs', evs, None) \<Rightarrow>
          (case main_loop cfg w last_posted_date start_post_date es cs' of
             (cs'', evs', r) \<Rightarrow> (cs'', evs @ evs', r)))"

text \<open>
  \<open>datetime.strptime(s, DATE_FORMAT) if s else None\<close>, for the start date and for
  the stored cursor: the outer \<open>None\<close> is the \<open>ValueError\<close>.
\<close>

definition parse_if_set :: "settings \<Rightarrow> world \<Rightarrow> string option \<Rightarrow> int option option" where
  "parse_if_set cfg w s_opt =
     (case s_opt of
        None \<Rightarrow> Some None
      | Some s \<Rightarrow>
          if s \<noteq> [] then map_option Some (strptime w s (DATE_FORMAT cfg)) else Some None)"

text \<open>
  One run. The loop goes over \<open>reversed(feed.entries)\<close>; \<open>last_posted_date\<close> is read
  once before the loop.
\<close>

definition main :: "settings \<Rightarrow> world \<Rightarrow> state \<Rightarrow> state \<times> event list \<times> error option" where
  "main cfg w st =
     (case parse_if_set cfg w (Some (START_POST_DATE cfg)) of
        None \<Rightarrow> (st, [], Some ValueError)
      | Some start_post_date \<Rightarrow>
          (let feed_entries = feedparser_parse w (FEED_URL cfg);
               last_posted_date_str = read_last_posted_date st
           in case parse_if_set cfg w last_posted_date_str of
                None \<Rightarrow> (st, [], Some ValueError)
              | Some last_posted_date \<Rightarrow>
                  (case main_loop cfg w last_posted_date start_post_date (rev feed_entries) (None, st) of
                     ((client, st'), evs, r) \<Rightarrow> (st', evs, r))))"

section \<open>Reading the events of a run\<close>

text \<open>The entries posted, the posting calls made and the strings saved, in order.\<close>

fun published_entries :: "event list \<Rightarrow> entry list" where
  "published_entries [] = []"
| "published_entries (Publish e p # evs) = e # published_entries evs"
| "published_entries (ev # evs) = published_entries evs"

fun published_posts :: "event list \<Rightarrow> post list" where
  "published_posts [] = []"
| "published_posts (Publish e p # evs) = p # published_posts evs"
| "published_posts (ev # evs) = published_posts evs"

fun saves :: "event list \<Rightarrow> string list" where
  "saves [] = []"
| "saves (Save s # evs) = s # saves evs"
| "saves (ev # evs) = saves evs"

fun http_gets :: "event list \<Rightarrow> string list" where
  "http_gets [] = []"
| "http_gets (HttpGet u # evs) = u # http_gets evs"
| "http_gets (ev # evs) = http_gets evs"

fun post_message :: "post \<Rightarrow> text_builder" where
  "post_message (SendPost message) = message"
| "post_message (SendImage message content alt) = message"

text \<open>
  Every \<open>Save\<close> comes directly after a \<open>Publish\<close>, and writes the \<open>published\<close>
  string of the entry of that \<open>Publish\<close>. \<open>saves_after prev evs\<close> checks the events
  \<open>evs\<close> that follow the event \<open>prev\<close>.
\<close>

fun save_allowed :: "event option \<Rightarrow> event \<Rightarrow> bool" where
  "save_allowed (Some (Publish e p)) (Save s) = (s = published e)"
| "save_allowed prev (Save s) = False"
| "save_allowed prev ev = True"

fun saves_after :: "event option \<Rightarrow> event list \<Rightarrow> bool" where
  "saves_after prev [] = True"
| "saves_after prev (ev # evs) = (save_allowed prev ev \<and> saves_after (Some ev) evs)"

definition saves_follow_publish :: "event list \<Rightarrow> bool" where
  "saves_follow_publish evs = saves_after None evs"

text \<open>
  An entry passes the filters of lines 127 to 136: it is not skip-tagged, its date
  parses, and the date is after the cursor and after the start date where these are
  set.
\<close>

definition eligible :: "settings \<Rightarrow> world \<Rightarrow> int option \<Rightarrow> int option \<Rightarrow> entry \<Rightarrow> bool" where
  "eligible cfg w last_posted_date start_post_date e =
     (\<not> skip_tagged cfg e \<and>
      (case strptime w (published e) (DATE_FORMAT cfg) of
         None \<Rightarrow> False
       | Some pub_date \<Rightarrow>
           after_bound last_posted_date pub_date \<and> after_bound start_post_date pub_date))"

text \<open>Both date strings parse, and the first instant is strictly before the second.\<close>

definition earlier_str :: "settings \<Rightarrow> world \<Rightarrow> string \<Rightarrow> string \<Rightarrow> bool" where
  "earlier_str cfg w a b =
     (case (strptime w a (DATE_FORMAT cfg), strptime w b (DATE_FORMAT cfg)) of
        (Some x, Some y) \<Rightarrow> x < y
      | _ \<Rightarrow> False)"

definition earlier :: "settings \<Rightarrow> world \<Rightarrow> entry \<Rightarrow> entry \<Rightarrow> bool" where
  "earlier cfg w a b = earlier_str cfg w (published a) (published b)"

text \<open>The feed lists its entries newest first, with strictly decreasing dates.\<close>

definition newest_first :: "settings \<Rightarrow> world \<Rightarrow> entry list \<Rightarrow> bool" where
  "newest_first cfg w es = sorted_wrt (\<lambda>a b. earlier cfg w b a) es"

section \<open>Example inputs\<close>

definition ex_cfg :: settings where
  "ex_cfg =
     \<lparr>FEED_URL = ''http://feed'', HANDLE = ''h'', PASSWORD = ''p'', START_POST_DATE = [],
      INTERVAL = 60, LAST_POSTED_FILE = ''last_posted.txt'', DATE_FORMAT = ''%d'',
      SKIP_TAG = Some ''#nobot'', SPLITTER = Some ''|''\<rparr>"

text \<open>
  An example of \<open>strptime\<close> for the format \<open>%d\<close>, on the strings the examples use:
  \<open>1\<close>, \<open>2\<close> and \<open>3\<close> are days of one month, in this order; the other strings of
  the examples do not match the format.
\<close>

definition ex_strptime :: "string \<Rightarrow> string \<Rightarrow> int option" where
  "ex_strptime s fmt =
     (if s = ''1'' then Some 1 else if s = ''2'' then Some 2
      else if s = ''3'' then Some 3 else None)"

definition ex_entry :: "string \<Rightarrow> string \<Rightarrow> string \<Rightarrow> media list option \<Rightarrow> entry" where
  "ex_entry t p d ms =
     \<lparr>title = t, link = ''http://x/a'', published = p, description = d,
      media_content = ms, enclosures = None\<rparr>"

definition ex_world :: "entry list \<Rightarrow> world" where
  "ex_world es =
     \<lparr>feedparser_parse = (\<lambda>u. es), strptime = ex_strptime,
      httpx_get = (\<lambda>u. if u = ''http://x/i.PNG'' then Some (200, ''PNG'') else Some (404, [])),
      login = (\<lambda>n. LoginOk), send_ok = (\<lambda>c p. logged_in c), os_name = Posix\<rparr>"

definition ex_state :: "string option \<Rightarrow> state" where
  "ex_state content = \<lparr>last_posted_file = content, logins = 0\<rparr>"

text \<open>A world whose first login is rate limited and whose later logins succeed.\<close>

definition ex_world_rate_limited :: world where
  "ex_world_rate_limited =
     \<lparr>feedparser_parse = (\<lambda>u. []), strptime = ex_strptime, httpx_get = (\<lambda>u. None),
      login = (\<lambda>n. if n = 0 then RequestException ''RateLimitExceeded'' else LoginOk),
      send_ok = (\<lambda>c p. logged_in c), os_name = Posix\<rparr>"

text \<open>Example entries: three plain ones dated 1, 2 and 3, and some special ones.\<close>

definition ex_A :: entry where "ex_A = ex_entry ''A'' ''1'' ''d'' None"

definition ex_B :: entry where "ex_B = ex_entry ''B'' ''2'' ''d'' None"

definition ex_C :: entry where "ex_C = ex_entry ''C'' ''3'' ''d'' None"

definition ex_skip :: entry where "ex_skip = ex_entry ''S'' ''2'' ''x #nobot'' None"

definition ex_bad_date :: entry where
  "ex_bad_date = ex_entry ''X'' ''Mon, 01 Jan 2024 10:00:00 GMT'' ''d'' None"

definition ex_png :: entry where
  "ex_png =
     ex_entry ''P'' ''2'' ''d''
       (Some [Media (Some ''http://x/i.PNG''), Media (Some ''http://x/j.gif'')])"

definition ex_webp :: entry where
  "ex_webp = ex_entry ''W'' ''2'' ''d'' (Some [Media (Some ''http://x/i.webp'')])"

definition ex_no_url :: entry where
  "ex_no_url = ex_entry ''N'' ''2'' ''d'' (Some [Media None])"

definition ex_split_title :: entry where
  "ex_split_title = ex_entry ''intro | body '' ''2'' ''d'' None"

definition ex_split_description :: entry where
  "ex_split_description = ex_entry ''T'' ''2'' ''a|b'' None"

section \<open>Stripping is idempotent\<close>

lemma dropWhile_rev_dropWhile:
  assumes "ys = [] \<or> \<not> P (hd ys)"
  shows "dropWhile P (rev (dropWhile P (rev ys))) = rev (dropWhile P (rev ys))"
proof -
  let ?X = "rev (dropWhile P (rev ys))"
  have "rev (takeWhile P (rev ys) @ dropWhile P (rev ys)) = ys"
    by (simp only: takeWhile_dropWhile_id rev_rev_ident)
  then have split: "ys = ?X @ rev (takeWhile P (rev ys))"
    by (simp only: rev_append)
  show ?thesis
  proof (cases "?X = []")
    case True
    show ?thesis by (simp only: True dropWhile.simps)
  next
    case False
    then have "hd ys = hd ?X" using split by (metis hd_append2)
    moreover have "ys \<noteq> []" using False by auto
    ultimately have "\<not> P (hd ?X)" using assms by simp
    then show ?thesis using False by (cases ?X) auto
  qed
qed

lemma strip_strip: "strip (strip s) = strip s"
proof -
  let ?ys = "dropWhile is_space s"
  have h: "?ys = [] \<or> \<not> is_space (hd ?ys)"
    using hd_dropWhile [of is_space s] by blast
  have a: "dropWhile is_space (rev (dropWhile is_space (rev ?ys)))
             = rev (dropWhile is_space (rev ?ys))"
    using h by (rule dropWhile_rev_dropWhile [where P = is_space and ys = "?ys"])
  have b: "dropWhile P (dropWhile P xs) = dropWhile P xs" for P :: "char \<Rightarrow> bool" and xs
    by (induction xs) auto
  show ?thesis
    unfolding strip_def by (simp add: a b)
qed

section \<open>Text files and stripping\<close>

lemma read_newlines_Cons:
  "c \<noteq> CR \<Longrightarrow> read_newlines (c # cs) = c # read_newlines cs"
  by (cases cs) simp_all

lemma read_newlines_no_CR: "CR \<notin> set s \<Longrightarrow> read_newlines s = s"
  by (induction s) (auto simp: read_newlines_Cons)

lemma read_write_newlines:
  assumes "CR \<notin> set s"
  shows "read_newlines (write_newlines os s) = s"
proof (cases os)
  case Posix
  have "write_newlines Posix s = s"
    by (induction s) (simp_all add: write_newlines_def)
  then show ?thesis using assms Posix by (simp add: read_newlines_no_CR)
next
  case Windows
  have "read_newlines (write_newlines Windows s) = s"
    using assms
  proof (induction s)
    case Nil
    then show ?case by (simp add: write_newlines_def)
  next
    case (Cons c cs)
    then have ih: "read_newlines (write_newlines Windows cs) = cs" and c: "c \<noteq> CR" by auto
    show ?case
    proof (cases "c = LF")
      case True
      have "write_newlines Windows (c # cs) = CR # LF # write_newlines Windows cs"
        using True by (simp add: write_newlines_def)
      then show ?thesis using ih True by simp
    next
      case False
      have "write_newlines Windows (c # cs) = c # write_newlines Windows cs"
        using False by (simp add: write_newlines_def)
      then show ?thesis using ih c by (simp add: read_newlines_Cons)
    qed
  qed
  then show ?thesis using Windows by simp
qed

lemma write_newlines_same:
  "os = Posix \<or> LF \<notin> set s \<Longrightarrow> write_newlines os s = s"
  by (induction s) (auto simp: write_newlines_def)

text \<open>
  What \<open>strip\<close> gives: the part of the string between its leading and its trailing
  whitespace.
\<close>

lemma strip_decomposition:
  "\<exists>pre post. s = pre @ strip s @ post
     \<and> list_all is_space pre \<and> list_all is_space post
     \<and> (strip s = [] \<or> \<not> is_space (hd (strip s)) \<and> \<not> is_space (last (strip s)))"
proof -
  let ?pre = "takeWhile is_space s"
  let ?rest = "dropWhile is_space s"
  let ?post = "rev (takeWhile is_space (rev ?rest))"
  let ?m = "rev (dropWhile is_space (rev ?rest))"
  have m: "strip s = ?m" by (simp add: strip_def)
  have "rev (takeWhile is_space (rev ?rest) @ dropWhile is_space (rev ?rest)) = ?rest"
    by (simp only: takeWhile_dropWhile_id rev_rev_ident)
  then have rest: "?rest = ?m @ ?post" by (simp only: rev_append)
  have "s = ?pre @ ?rest" by simp
  then have s: "s = ?pre @ ?m @ ?post" using rest by simp
  have pre: "list_all is_space ?pre"
    by (simp add: list_all_iff) (meson set_takeWhileD)
  have post: "list_all is_space ?post"
    by (simp add: list_all_iff) (meson set_takeWhileD)
  have ends: "\<not> is_space (hd ?m) \<and> \<not> is_space (last ?m)" if ne: "?m \<noteq> []"
  proof -
    have d: "dropWhile is_space (rev ?rest) \<noteq> []" using ne by simp
    have "last ?m = hd (dropWhile is_space (rev ?rest))" using d by (simp add: last_rev)
    then have l: "\<not> is_space (last ?m)" using hd_dropWhile [OF d] by simp
    have "?rest \<noteq> []" using ne rest by (metis append_is_Nil_conv)
    then have "\<not> is_space (hd ?rest)" by (rule hd_dropWhile)
    moreover have "hd ?rest = hd ?m" using rest ne by (metis hd_append2)
    ultimately show ?thesis using l by simp
  qed
  show ?thesis
    unfolding m using s pre post ends by blast
qed

section \<open>Session acquisition: properties\<close>

declare get_client_loop.simps [simp del]

lemma get_client_loop_Some: "get_client_loop w (Some c) st evs = (st, evs, Inr c)"
  by (simp add: get_client_loop.simps)

lemma get_client_eq:
  "get_client w st =
     (st\<lparr>logins := Suc (logins st)\<rparr>,
      (case login w (logins st) of
         LoginOk \<Rightarrow> [LoginAttempt]
       | RequestException msg \<Rightarrow>
           LoginAttempt # (if py_in ''RateLimitExceeded'' msg then [Sleep 86400] else [])
       | OtherException \<Rightarrow> [LoginAttempt]),
      (case login w (logins st) of
         LoginOk \<Rightarrow> Inr (Client True)
       | RequestException msg \<Rightarrow> Inr (Client False)
       | OtherException \<Rightarrow> Inl LoginError))"
  unfolding get_client_def
  by (subst get_client_loop.simps) (simp add: get_client_loop_Some Let_def split: login_result.splits)

lemma get_client_quiet:
  "published_entries (fst (snd (get_client w st))) = []"
  "published_posts (fst (snd (get_client w st))) = []"
  "saves (fst (snd (get_client w st))) = []"
  "http_gets (fst (snd (get_client w st))) = []"
  "saves_follow_publish (fst (snd (get_client w st)))"
  by (simp_all add: get_client_eq saves_follow_publish_def split: login_result.splits)

lemma get_client_one_attempt:
  "logins (fst (get_client w st)) = Suc (logins st)
   \<and> length (filter (\<lambda>ev. ev = LoginAttempt) (fst (snd (get_client w st)))) = 1"
  by (simp add: get_client_eq split: login_result.splits)

text \<open>
  C9. The claim: session acquisition retries the login until it succeeds, sleeping
  86400 seconds after a rate-limited failure, and never returns a failed session. The
  code does not: \<open>client\<close> is bound to the new \<open>Client()\<close> before \<open>login\<close> is
  called, so after a caught \<open>RequestException\<close> the loop test \<open>client is None\<close> is
  false and the loop ends. With a first login that is rate limited and a second that
  would succeed, \<open>get_client\<close> makes one login call, sleeps once, and returns the
  client that is not logged in.
\<close>

theorem get_client_returns_after_failed_login:
  "get_client ex_world_rate_limited (ex_state None)
     = (\<lparr>last_posted_file = None, logins = 1\<rparr>, [LoginAttempt, Sleep 86400], Inr (Client False))
   \<and> login ex_world_rate_limited 1 = LoginOk"
  by (simp add: get_client_eq ex_world_rate_limited_def ex_state_def)

section \<open>The message: properties\<close>

lemma truncate_text_eq:
  "truncate_text cfg d l 300 =
     [Text (take 291
              (case SPLITTER cfg of
                 None \<Rightarrow> d
               | Some sp \<Rightarrow> if sp \<noteq> [] \<and> py_in sp d then strip (split1 sp d ! 1) else d)
            @ '' ''),
      Link ''Read post'' l]"
  by (simp add: truncate_text_def slice_to_def Let_def split: option.splits)

lemma post_message_post_to_bluesky: "post_message (post_to_bluesky message img) = message"
  by (simp add: post_to_bluesky_def split: option.splits)

lemma truncate_text_length:
  assumes "9 \<le> L"
  shows "length (build_text (truncate_text cfg d l L)) \<le> nat L + 1"
  using assms
  by (auto simp: truncate_text_def build_text_def slice_to_def Let_def split: option.splits)

text \<open>
  C4. The claim: for a limit \<open>L\<close> of at least 9, the rendered message (body, joining
  space, label \<open>Read post\<close>) is at most \<open>L\<close> long. The code reserves the 9 characters
  of the label but not the joining space: a body of 291 characters or more, with the
  limit 300 that \<open>main\<close> passes, gives a rendered text of 301 characters.
\<close>

theorem truncate_text_exceeds_limit:
  "length (build_text (truncate_text (cfg\<lparr>SPLITTER := None\<rparr>) (replicate 291 c @ rest) l 300)) = 301"
  by (simp add: truncate_text_def build_text_def slice_to_def Let_def)

section \<open>The synchronization loop: events of one iteration and of a run\<close>

lemma published_entries_append [simp]:
  "published_entries (xs @ ys) = published_entries xs @ published_entries ys"
  by (induction xs rule: published_entries.induct) simp_all

lemma published_posts_append [simp]:
  "published_posts (xs @ ys) = published_posts xs @ published_posts ys"
  by (induction xs rule: published_posts.induct) simp_all

lemma saves_append [simp]: "saves (xs @ ys) = saves xs @ saves ys"
  by (induction xs rule: saves.induct) simp_all

lemma http_gets_append [simp]: "http_gets (xs @ ys) = http_gets xs @ http_gets ys"
  by (induction xs rule: http_gets.induct) simp_all

lemma saves_after_append:
  "saves_after prev (xs @ ys) =
     (saves_after prev xs \<and> saves_after (if xs = [] then prev else Some (last xs)) ys)"
  by (induction xs arbitrary: prev) auto

text \<open>A block that does not start with a save may follow any event.\<close>

lemma saves_after_any_prev:
  "saves_after None evs \<Longrightarrow> saves_after prev evs"
  by (cases evs; cases "hd evs"; cases prev) auto

lemma saves_follow_publish_append:
  "saves_follow_publish xs \<Longrightarrow> saves_follow_publish ys \<Longrightarrow> saves_follow_publish (xs @ ys)"
  unfolding saves_follow_publish_def
  by (simp add: saves_after_append saves_after_any_prev)

lemma main_media_cases:
  "main_media w e = ([], Inr None) \<or> (\<exists>err. main_media w e = ([], Inl err))
   \<or> (\<exists>u r. main_media w e = ([HttpGet u], r))"
  by (auto simp: main_media_def download_image_def split: option.splits list.splits sum.splits bool.splits)

lemma main_media_quiet:
  "published_entries (fst (main_media w e)) = []"
  "published_posts (fst (main_media w e)) = []"
  "saves (fst (main_media w e)) = []"
  "saves_follow_publish (fst (main_media w e))"
  using main_media_cases [of w e] by (auto simp: saves_follow_publish_def)

lemma main_body_skip:
  "skip_tagged cfg e \<Longrightarrow> main_body cfg w lpd spd e cs = (cs, [], None)"
  by (simp add: main_body_def split: prod.splits)

lemma main_body_not_eligible:
  assumes "\<not> eligible cfg w lpd spd e"
  shows "fst (main_body cfg w lpd spd e cs) = cs \<and> fst (snd (main_body cfg w lpd spd e cs)) = []"
  using assms
  by (auto simp: main_body_def eligible_def split: prod.splits option.splits)

text \<open>What one iteration does for an entry that passes the filters.\<close>

lemma main_body_eligible:
  assumes "eligible cfg w lpd spd e"
    and "main_body cfg w lpd spd e (client, st) = ((client', st'), evs, r)"
  shows "(r = None \<longrightarrow>
            (\<exists>img pre c. snd (main_media w e) = Inr img
               \<and> evs = pre @ [Publish e (post_to_bluesky (truncate_text cfg (title e) (link e) 300) img),
                             Save (published e)]
               \<and> published_entries pre = [] \<and> published_posts pre = [] \<and> saves pre = []
               \<and> saves_follow_publish pre
               \<and> http_gets pre = http_gets (fst (main_media w e))
               \<and> client' = Some c
               \<and> last_posted_file st' = Some (write_newlines (os_name w) (published e))))
       \<and> (r \<noteq> None \<longrightarrow>
            published_entries evs = [] \<and> published_posts evs = [] \<and> saves evs = []
            \<and> saves_follow_publish evs
            \<and> http_gets evs = http_gets (fst (main_media w e))
            \<and> last_posted_file st' = last_posted_file st)"
proof -
  obtain t where t: "strptime w (published e) (DATE_FORMAT cfg) = Some t"
    and ns: "\<not> skip_tagged cfg e"
    and ab: "after_bound lpd t" "after_bound spd t"
    using assms(1) by (auto simp: eligible_def split: option.splits)
  obtain evs1 r1 where mm: "main_media w e = (evs1, r1)" by (cases "main_media w e")
  have q1: "published_entries evs1 = []" "published_posts evs1 = []" "saves evs1 = []"
    "saves_follow_publish evs1"
    using main_media_quiet [of w e] mm by simp_all
  obtain st2 evs2 r2 where gc: "get_client w st = (st2, evs2, r2)" by (cases "get_client w st")
  have q2: "published_entries evs2 = []" "published_posts evs2 = []" "saves evs2 = []"
    "http_gets evs2 = []" "saves_follow_publish evs2"
    using get_client_quiet [of w st] gc by simp_all
  have f2: "last_posted_file st2 = last_posted_file st"
    using gc by (auto simp: get_client_eq)
  have sfp: "saves_follow_publish (evs1 @ evs2)"
    using q1 q2 by (simp add: saves_follow_publish_append)
  show ?thesis
    using assms(2) q1 q2 f2 sfp
    by (auto simp: main_body_def t ns ab mm gc Let_def save_last_posted_date_def
             saves_follow_publish_def
             split: sum.splits option.splits if_splits)
qed

lemma main_body_events:
  assumes "main_body cfg w lpd spd e cs = (cs', evs, r)"
  shows "published_entries evs = (if eligible cfg w lpd spd e \<and> r = None then [e] else [])
       \<and> saves evs = map published (published_entries evs)
       \<and> saves_follow_publish evs"
proof (cases "eligible cfg w lpd spd e")
  case True
  obtain client st where cs: "cs = (client, st)" by (cases cs)
  obtain client' st' where cs': "cs' = (client', st')" by (cases cs')
  from main_body_eligible [OF True assms [unfolded cs cs']]
  show ?thesis using True
    by (cases r) (auto simp: saves_follow_publish_def saves_after_append)
next
  case False
  from main_body_not_eligible [OF False, of cs] assms
  show ?thesis using False by (simp add: saves_follow_publish_def)
qed

lemma main_loop_events:
  assumes "main_loop cfg w lpd spd es cs = (cs', evs, r)"
  shows "prefix (published_entries evs) (filter (eligible cfg w lpd spd) es)
       \<and> (r = None \<longrightarrow> published_entries evs = filter (eligible cfg w lpd spd) es)
       \<and> saves evs = map published (published_entries evs)
       \<and> saves_follow_publish evs"
  using assms
proof (induction es arbitrary: cs cs' evs r)
  case Nil
  then show ?case by (simp add: saves_follow_publish_def)
next
  case (Cons e es)
  obtain cs1 evs1 r1 where b: "main_body cfg w lpd spd e cs = (cs1, evs1, r1)"
    by (cases "main_body cfg w lpd spd e cs") auto
  note be = main_body_events [OF b]
  show ?case
  proof (cases r1)
    case (Some err)
    then have "evs = evs1" "r = Some err" using Cons.prems b by auto
    then show ?thesis using be Some by auto
  next
    case None
    obtain cs2 evs2 r2 where l: "main_loop cfg w lpd spd es cs1 = (cs2, evs2, r2)"
      by (cases "main_loop cfg w lpd spd es cs1") auto
    have eq: "evs = evs1 @ evs2" "r = r2" using Cons.prems b None l by auto
    note ih = Cons.IH [OF l]
    show ?thesis using be ih None eq
      by (auto simp: saves_follow_publish_append)
  qed
qed

lemma main_unfold:
  assumes "main cfg w st = (st', evs, r)"
  shows "(evs = [] \<and> st' = st \<and> r = Some ValueError)
       \<or> (\<exists>S L client.
             parse_if_set cfg w (Some (START_POST_DATE cfg)) = Some S
           \<and> parse_if_set cfg w (read_last_posted_date st) = Some L
           \<and> main_loop cfg w L S (rev (feedparser_parse w (FEED_URL cfg))) (None, st)
                = ((client, st'), evs, r))"
  using assms
  by (auto simp: main_def Let_def split: option.splits prod.splits)

lemma main_events:
  assumes "main cfg w st = (st', evs, r)"
    and "parse_if_set cfg w (read_last_posted_date st) = Some L"
  shows "\<exists>S. (parse_if_set cfg w (Some (START_POST_DATE cfg)) = Some S \<or> evs = [] \<and> r \<noteq> None)
       \<and> prefix (published_entries evs)
            (filter (eligible cfg w L S) (rev (feedparser_parse w (FEED_URL cfg))))
       \<and> (r = None \<longrightarrow>
            parse_if_set cfg w (Some (START_POST_DATE cfg)) = Some S
            \<and> published_entries evs
                = filter (eligible cfg w L S) (rev (feedparser_parse w (FEED_URL cfg))))
       \<and> saves evs = map published (published_entries evs)
       \<and> saves_follow_publish evs"
  using main_unfold [OF assms(1)]
proof (elim disjE exE conjE)
  assume "evs = []" "st' = st" "r = Some ValueError"
  then show ?thesis by (auto simp: saves_follow_publish_def)
next
  fix S L' client
  assume a: "parse_if_set cfg w (Some (START_POST_DATE cfg)) = Some S"
    "parse_if_set cfg w (read_last_posted_date st) = Some L'"
    "main_loop cfg w L' S (rev (feedparser_parse w (FEED_URL cfg))) (None, st)
       = ((client, st'), evs, r)"
  then have "L' = L" using assms(2) by simp
  with main_loop_events [OF a(3)] a(1) show ?thesis by auto
qed

lemma eligible_after_cursor:
  "eligible cfg w (Some T) S e \<Longrightarrow>
     \<exists>t. strptime w (published e) (DATE_FORMAT cfg) = Some t \<and> T < t"
  by (auto simp: eligible_def after_bound_def split: option.splits)

lemma count_list_filter:
  "count_list (filter P xs) x = (if P x then count_list xs x else 0)"
  by (induction xs) auto

lemma main_published_prefix:
  assumes "main cfg w st = (st', evs, r)"
  shows "\<exists>L S. prefix (published_entries evs)
            (filter (eligible cfg w L S) (rev (feedparser_parse w (FEED_URL cfg))))
       \<and> saves evs = map published (published_entries evs)
       \<and> saves_follow_publish evs"
  using main_unfold [OF assms]
proof (elim disjE exE conjE)
  assume "evs = []" "st' = st" "r = Some ValueError"
  then show ?thesis by (auto simp: saves_follow_publish_def)
next
  fix S L client
  assume "main_loop cfg w L S (rev (feedparser_parse w (FEED_URL cfg))) (None, st)
       = ((client, st'), evs, r)"
  from main_loop_events [OF this] show ?thesis by blast
qed

lemma sorted_wrt_prefix:
  "prefix xs ys \<Longrightarrow> sorted_wrt P ys \<Longrightarrow> sorted_wrt P xs"
  by (auto simp: prefix_def sorted_wrt_append)

lemma newest_first_published:
  assumes "main cfg w st = (st', evs, r)"
    and "newest_first cfg w (feedparser_parse w (FEED_URL cfg))"
  shows "sorted_wrt (earlier cfg w) (published_entries evs)"
proof -
  from main_published_prefix [OF assms(1)] obtain L S where
    p: "prefix (published_entries evs)
          (filter (eligible cfg w L S) (rev (feedparser_parse w (FEED_URL cfg))))"
    by blast
  have "sorted_wrt (earlier cfg w) (rev (feedparser_parse w (FEED_URL cfg)))"
    using assms(2) by (simp add: newest_first_def sorted_wrt_rev)
  then have "sorted_wrt (earlier cfg w)
      (filter (eligible cfg w L S) (rev (feedparser_parse w (FEED_URL cfg))))"
    by (rule sorted_wrt_filter)
  with p show ?thesis by (rule sorted_wrt_prefix)
qed

lemma eligible_not_skip: "eligible cfg w L S e \<Longrightarrow> \<not> skip_tagged cfg e"
  by (simp add: eligible_def)

lemma main_body_saves:
  "saves (fst (snd (main_body cfg w lpd spd e cs))) = []
   \<or> saves (fst (snd (main_body cfg w lpd spd e cs))) = [published e]
     \<and> last_posted_file (snd (fst (main_body cfg w lpd spd e cs)))
         = last_posted_file (fst (save_last_posted_date w (published e) (snd cs)))"
proof -
  obtain client st where cs: "cs = (client, st)" by (cases cs)
  obtain client' st' evs r where b: "main_body cfg w lpd spd e (client, st) = ((client', st'), evs, r)"
    by (metis prod.exhaust)
  show ?thesis
  proof (cases "eligible cfg w lpd spd e")
    case True
    from main_body_eligible [OF True b] show ?thesis
      unfolding cs b by (cases r) (auto simp: save_last_posted_date_def)
  next
    case False
    from main_body_not_eligible [OF False, of cs] show ?thesis by simp
  qed
qed

section \<open>Resumability, ordering and the cursor\<close>

text \<open>
  C1 (amended). In a run that starts with a stored cursor \<open>T\<close>, every entry that is
  posted has a date strictly after \<open>T\<close>. When the run ends without an exception, the
  entries posted are exactly the fetched entries that are not skip-tagged and are dated
  strictly after \<open>T\<close> and after the start date, in reversed feed order, each posted as
  many times as it occurs in the feed (once, when the feed has no duplicates).
\<close>

theorem resumability:
  assumes "parse_if_set cfg w (read_last_posted_date st) = Some (Some T)"
    and "main cfg w st = (st', evs, r)"
  shows "(\<forall>e \<in> set (published_entries evs).
            \<exists>t. strptime w (published e) (DATE_FORMAT cfg) = Some t \<and> T < t)
       \<and> (r = None \<longrightarrow>
            (\<exists>S. parse_if_set cfg w (Some (START_POST_DATE cfg)) = Some S
               \<and> published_entries evs
                    = filter (eligible cfg w (Some T) S) (rev (feedparser_parse w (FEED_URL cfg)))
               \<and> (\<forall>e. count_list (published_entries evs) e
                      = (if eligible cfg w (Some T) S e
                         then count_list (feedparser_parse w (FEED_URL cfg)) e else 0))))"
proof -
  from main_events [OF assms(2) assms(1)] obtain S where
    p: "prefix (published_entries evs)
          (filter (eligible cfg w (Some T) S) (rev (feedparser_parse w (FEED_URL cfg))))"
    and c: "r = None \<longrightarrow>
            parse_if_set cfg w (Some (START_POST_DATE cfg)) = Some S
            \<and> published_entries evs
                = filter (eligible cfg w (Some T) S) (rev (feedparser_parse w (FEED_URL cfg)))"
    by blast
  have "set (published_entries evs) \<subseteq> {e. eligible cfg w (Some T) S e}"
    using set_mono_prefix [OF p] by auto
  then have a: "\<forall>e \<in> set (published_entries evs).
            \<exists>t. strptime w (published e) (DATE_FORMAT cfg) = Some t \<and> T < t"
    using eligible_after_cursor by blast
  have b: "r = None \<longrightarrow>
            (\<exists>S. parse_if_set cfg w (Some (START_POST_DATE cfg)) = Some S
               \<and> published_entries evs
                    = filter (eligible cfg w (Some T) S) (rev (feedparser_parse w (FEED_URL cfg)))
               \<and> (\<forall>e. count_list (published_entries evs) e
                      = (if eligible cfg w (Some T) S e
                         then count_list (feedparser_parse w (FEED_URL cfg)) e else 0)))"
    using c by (auto simp: count_list_filter)
  show ?thesis using a b by blast
qed

theorem resumability_witness:
  "parse_if_set ex_cfg (ex_world [ex_C, ex_skip, ex_A])
       (read_last_posted_date (ex_state (Some ''1''))) = Some (Some 1)
   \<and> main ex_cfg (ex_world [ex_C, ex_skip, ex_A]) (ex_state (Some ''1''))
       = (\<lparr>last_posted_file = Some ''3'', logins = 1\<rparr>,
          [LoginAttempt,
           Publish ex_C (SendPost [Text ''C '', Link ''Read post'' ''http://x/a'']),
           Save ''3''],
          None)
   \<and> (\<exists>t. strptime (ex_world [ex_C, ex_skip, ex_A]) (published ex_C) (DATE_FORMAT ex_cfg)
              = Some t \<and> 1 < t)"
proof -
  let ?w = "ex_world [ex_C, ex_skip, ex_A]"
  let ?evs = "[LoginAttempt,
           Publish ex_C (SendPost [Text ''C '', Link ''Read post'' ''http://x/a'']),
           Save ''3'']"
  have h1: "parse_if_set ex_cfg ?w (read_last_posted_date (ex_state (Some ''1''))) = Some (Some 1)"
    by code_simp
  have h2: "main ex_cfg ?w (ex_state (Some ''1''))
       = (\<lparr>last_posted_file = Some ''3'', logins = 1\<rparr>, ?evs, None)"
    by code_simp
  from resumability [OF h1 h2] have a: "\<exists>t. strptime ?w (published ex_C) (DATE_FORMAT ex_cfg) = Some t \<and> 1 < t"
    by simp
  show ?thesis by (rule conjI [OF h1 conjI [OF h2 a]])
qed

text \<open>
  Without the condition that the run ends without an exception the second part fails.
  The feed holds \<open>ex_C\<close>, dated 3, and then an entry whose date does not parse; the
  cursor is 1. The loop meets the unparsable date first, \<open>strptime\<close> raises, and
  \<open>ex_C\<close> is never posted.
\<close>

theorem resumability_counterexample:
  "parse_if_set ex_cfg (ex_world [ex_C, ex_bad_date])
       (read_last_posted_date (ex_state (Some ''1''))) = Some (Some 1)
   \<and> ex_C \<in> set (feedparser_parse (ex_world [ex_C, ex_bad_date]) (FEED_URL ex_cfg))
   \<and> \<not> skip_tagged ex_cfg ex_C
   \<and> strptime (ex_world [ex_C, ex_bad_date]) (published ex_C) (DATE_FORMAT ex_cfg) = Some 3
   \<and> parse_if_set ex_cfg (ex_world [ex_C, ex_bad_date]) (Some (START_POST_DATE ex_cfg)) = Some None
   \<and> main ex_cfg (ex_world [ex_C, ex_bad_date]) (ex_state (Some ''1''))
       = (ex_state (Some ''1''), [], Some ValueError)"
  by code_simp

text \<open>
  C2 (amended). When the feed lists its entries newest first, with strictly decreasing
  dates, the entries posted in a run are posted in strictly increasing order of date.
\<close>

theorem publish_order:
  assumes "main cfg w st = (st', evs, r)"
    and "newest_first cfg w (feedparser_parse w (FEED_URL cfg))"
  shows "sorted_wrt (earlier cfg w) (published_entries evs)"
  using assms by (rule newest_first_published)

theorem publish_order_witness:
  "newest_first ex_cfg (ex_world [ex_C, ex_B, ex_A])
       (feedparser_parse (ex_world [ex_C, ex_B, ex_A]) (FEED_URL ex_cfg))
   \<and> published_entries (fst (snd (main ex_cfg (ex_world [ex_C, ex_B, ex_A]) (ex_state None))))
       = [ex_A, ex_B, ex_C]
   \<and> sorted_wrt (earlier ex_cfg (ex_world [ex_C, ex_B, ex_A]))
         (published_entries (fst (snd (main ex_cfg (ex_world [ex_C, ex_B, ex_A]) (ex_state None)))))"
proof -
  let ?w = "ex_world [ex_C, ex_B, ex_A]"
  let ?m = "main ex_cfg ?w (ex_state None)"
  have h: "newest_first ex_cfg ?w (feedparser_parse ?w (FEED_URL ex_cfg))"
    by code_simp
  have m: "?m = (fst ?m, fst (snd ?m), snd (snd ?m))" by simp
  have p: "published_entries (fst (snd ?m)) = [ex_A, ex_B, ex_C]" by code_simp
  have c: "sorted_wrt (earlier ex_cfg ?w) (published_entries (fst (snd ?m)))"
    by (rule publish_order [OF m h])
  show ?thesis by (rule conjI [OF h conjI [OF p c]])
qed

text \<open>
  The order is the reversed feed order, not the order of the dates: for a feed that
  lists the entry dated 1 before the entry dated 2, the entry dated 2 is posted first.
\<close>

theorem publish_order_counterexample:
  "published_entries (fst (snd (main ex_cfg (ex_world [ex_A, ex_B]) (ex_state None))))
       = [ex_B, ex_A]
   \<and> strptime (ex_world [ex_A, ex_B]) (published ex_B) (DATE_FORMAT ex_cfg) = Some 2
   \<and> strptime (ex_world [ex_A, ex_B]) (published ex_A) (DATE_FORMAT ex_cfg) = Some 1
   \<and> \<not> sorted_wrt (earlier ex_cfg (ex_world [ex_A, ex_B]))
         (published_entries (fst (snd (main ex_cfg (ex_world [ex_A, ex_B]) (ex_state None)))))"
  by code_simp

text \<open>
  C3 (amended). In every run each write of the cursor file comes directly after a
  posting call that returned and writes the \<open>published\<close> string of the entry just
  posted, so nothing is written for a skipped or failed entry; each string written has
  a date strictly after the cursor the run started with; and when the feed lists its
  entries newest first, with strictly decreasing dates, each write has a strictly later
  date than the one before.
\<close>

theorem cursor_update_discipline:
  assumes "main cfg w st = (st', evs, r)"
  shows "saves_follow_publish evs
       \<and> saves evs = map published (published_entries evs)
       \<and> (\<forall>T. parse_if_set cfg w (read_last_posted_date st) = Some (Some T) \<longrightarrow>
             (\<forall>s \<in> set (saves evs). \<exists>t. strptime w s (DATE_FORMAT cfg) = Some t \<and> T < t))
       \<and> (newest_first cfg w (feedparser_parse w (FEED_URL cfg)) \<longrightarrow>
             sorted_wrt (earlier_str cfg w) (saves evs))"
proof -
  from main_published_prefix [OF assms] have
    s: "saves evs = map published (published_entries evs)" and f: "saves_follow_publish evs"
    by blast+
  have c: "\<exists>t. strptime w s (DATE_FORMAT cfg) = Some t \<and> T < t"
    if T: "parse_if_set cfg w (read_last_posted_date st) = Some (Some T)"
      and m: "s \<in> set (saves evs)" for T s
  proof -
    from m s obtain e where e: "e \<in> set (published_entries evs)" "s = published e" by auto
    from main_events [OF assms T] obtain S where
      "prefix (published_entries evs)
         (filter (eligible cfg w (Some T) S) (rev (feedparser_parse w (FEED_URL cfg))))"
      by blast
    from set_mono_prefix [OF this] e(1) have "eligible cfg w (Some T) S e" by auto
    from eligible_after_cursor [OF this] e(2) show ?thesis by simp
  qed
  have o: "sorted_wrt (earlier_str cfg w) (saves evs)"
    if "newest_first cfg w (feedparser_parse w (FEED_URL cfg))"
  proof -
    from newest_first_published [OF assms that]
    have "sorted_wrt (earlier cfg w) (published_entries evs)" .
    then show ?thesis
      unfolding s sorted_wrt_map earlier_def .
  qed
  show ?thesis using s f c o by blast
qed

theorem cursor_update_discipline_witness:
  "main ex_cfg (ex_world [ex_C, ex_B, ex_A]) (ex_state (Some ''1''))
     = (\<lparr>last_posted_file = Some ''3'', logins = 1\<rparr>,
        [LoginAttempt,
         Publish ex_B (SendPost [Text ''B '', Link ''Read post'' ''http://x/a'']), Save ''2'',
         Publish ex_C (SendPost [Text ''C '', Link ''Read post'' ''http://x/a'']), Save ''3''],
        None)
   \<and> parse_if_set ex_cfg (ex_world [ex_C, ex_B, ex_A])
         (read_last_posted_date (ex_state (Some ''1''))) = Some (Some 1)
   \<and> newest_first ex_cfg (ex_world [ex_C, ex_B, ex_A])
         (feedparser_parse (ex_world [ex_C, ex_B, ex_A]) (FEED_URL ex_cfg))
   \<and> sorted_wrt (earlier_str ex_cfg (ex_world [ex_C, ex_B, ex_A])) [''2'', ''3'']
   \<and> (\<exists>t. strptime (ex_world [ex_C, ex_B, ex_A]) ''2'' (DATE_FORMAT ex_cfg) = Some t \<and> 1 < t)"
proof -
  let ?w = "ex_world [ex_C, ex_B, ex_A]"
  let ?evs = "[LoginAttempt,
         Publish ex_B (SendPost [Text ''B '', Link ''Read post'' ''http://x/a'']), Save ''2'',
         Publish ex_C (SendPost [Text ''C '', Link ''Read post'' ''http://x/a'']), Save ''3'']"
  have m: "main ex_cfg ?w (ex_state (Some ''1''))
     = (\<lparr>last_posted_file = Some ''3'', logins = 1\<rparr>, ?evs, None)"
    by code_simp
  have t: "parse_if_set ex_cfg ?w (read_last_posted_date (ex_state (Some ''1''))) = Some (Some 1)"
    by code_simp
  have n: "newest_first ex_cfg ?w (feedparser_parse ?w (FEED_URL ex_cfg))"
    by code_simp
  note d = cursor_update_discipline [OF m]
  from d n have "sorted_wrt (earlier_str ex_cfg ?w) (saves ?evs)" by blast
  then have s: "sorted_wrt (earlier_str ex_cfg ?w) [''2'', ''3'']" by simp
  from d t have "\<forall>s \<in> set (saves ?evs). \<exists>t. strptime ?w s (DATE_FORMAT ex_cfg) = Some t \<and> 1 < t"
    by blast
  then have a: "\<exists>t. strptime ?w ''2'' (DATE_FORMAT ex_cfg) = Some t \<and> 1 < t" by simp
  show ?thesis by (rule conjI [OF m conjI [OF t conjI [OF n conjI [OF s a]]]])
qed

text \<open>
  For the same oldest-first feed the second write carries the earlier date, and the
  cursor file ends at the earlier of the two dates.
\<close>

theorem cursor_update_discipline_counterexample:
  "saves (fst (snd (main ex_cfg (ex_world [ex_A, ex_B]) (ex_state None)))) = [''2'', ''1'']
   \<and> strptime (ex_world [ex_A, ex_B]) ''2'' (DATE_FORMAT ex_cfg) = Some 2
   \<and> strptime (ex_world [ex_A, ex_B]) ''1'' (DATE_FORMAT ex_cfg) = Some 1
   \<and> \<not> sorted_wrt (earlier_str ex_cfg (ex_world [ex_A, ex_B]))
         (saves (fst (snd (main ex_cfg (ex_world [ex_A, ex_B]) (ex_state None)))))
   \<and> last_posted_file (fst (main ex_cfg (ex_world [ex_A, ex_B]) (ex_state None))) = Some ''1''"
  by code_simp

text \<open>
  C6. For an entry whose description contains the configured skip tag, whatever its
  date: the iteration makes no call and leaves the state, and with it the cursor file,
  as it was; the loop goes on with the next entry; and no run posts the entry.
\<close>

theorem skip_tag_frame:
  assumes "SKIP_TAG cfg = Some tag" and "tag \<noteq> []" and "py_in tag (description e)"
  shows "main_body cfg w lpd spd e cs = (cs, [], None)
       \<and> main_loop cfg w lpd spd (e # es) cs = main_loop cfg w lpd spd es cs
       \<and> e \<notin> set (published_entries (fst (snd (main cfg w st))))"
proof -
  have sk: "skip_tagged cfg e" using assms by (simp add: skip_tagged_def)
  have b: "main_body cfg w lpd spd e cs = (cs, [], None)" by (rule main_body_skip [OF sk])
  have l: "main_loop cfg w lpd spd (e # es) cs = main_loop cfg w lpd spd es cs"
    by (simp add: b split: prod.splits)
  obtain st' evs r where m: "main cfg w st = (st', evs, r)" by (cases "main cfg w st")
  from main_published_prefix [OF m] obtain L S where
    "prefix (published_entries evs)
       (filter (eligible cfg w L S) (rev (feedparser_parse w (FEED_URL cfg))))" by blast
  from set_mono_prefix [OF this] have "\<forall>x \<in> set (published_entries evs). eligible cfg w L S x"
    by auto
  then have "e \<notin> set (published_entries evs)" using sk eligible_not_skip by blast
  then show ?thesis using b l m by simp
qed

theorem skip_tag_frame_witness:
  "SKIP_TAG ex_cfg = Some ''#nobot''
   \<and> py_in ''#nobot'' (description ex_skip)
   \<and> main_body ex_cfg (ex_world [ex_skip]) None None ex_skip (None, ex_state (Some ''1''))
       = ((None, ex_state (Some ''1'')), [], None)
   \<and> main ex_cfg (ex_world [ex_skip]) (ex_state (Some ''1'')) = (ex_state (Some ''1''), [], None)"
proof -
  have h1: "SKIP_TAG ex_cfg = Some ''#nobot''" by (simp add: ex_cfg_def)
  have h2: "''#nobot'' \<noteq> []" by simp
  have h3: "py_in ''#nobot'' (description ex_skip)" by code_simp
  from skip_tag_frame [OF h1 h2 h3]
  have b: "main_body ex_cfg (ex_world [ex_skip]) None None ex_skip (None, ex_state (Some ''1''))
       = ((None, ex_state (Some ''1'')), [], None)" by blast
  have m: "main ex_cfg (ex_world [ex_skip]) (ex_state (Some ''1''))
       = (ex_state (Some ''1''), [], None)" by code_simp
  show ?thesis by (rule conjI [OF h1 conjI [OF h3 conjI [OF b m]]])
qed

section \<open>The cursor store\<close>

text \<open>
  C8 (amended). Saving replaces the content of the cursor file, whatever it was, by the
  given string, stored as it is on POSIX and whenever it holds no line feed. For a
  string with no carriage return, loading after saving gives back the saved string
  without its leading and trailing whitespace: the saved string is the loaded one
  between two runs of whitespace, and the loaded one neither starts nor ends with
  whitespace. Loading gives \<open>None\<close>, not an error, when the file does not exist. The
  only string an iteration of \<open>main\<close> saves for an entry is the entry's unparsed
  \<open>published\<close> string.
\<close>

theorem cursor_round_trip:
  assumes "CR \<notin> set s"
  shows "(\<exists>pre m post.
            read_last_posted_date (fst (save_last_posted_date w s st)) = Some m
          \<and> s = pre @ m @ post
          \<and> list_all is_space pre \<and> list_all is_space post
          \<and> (m = [] \<or> \<not> is_space (hd m) \<and> \<not> is_space (last m)))
       \<and> fst (save_last_posted_date w s (st\<lparr>last_posted_file := old\<rparr>))
           = fst (save_last_posted_date w s st)
       \<and> (os_name w = Posix \<or> LF \<notin> set s \<longrightarrow>
            last_posted_file (fst (save_last_posted_date w s st)) = Some s)
       \<and> read_last_posted_date (st\<lparr>last_posted_file := None\<rparr>) = None
       \<and> (saves (fst (snd (main_body cfg w lpd spd e cs))) = []
          \<or> saves (fst (snd (main_body cfg w lpd spd e cs))) = [published e]
            \<and> last_posted_file (snd (fst (main_body cfg w lpd spd e cs)))
                = last_posted_file (fst (save_last_posted_date w (published e) (snd cs))))"
proof -
  have r: "read_last_posted_date (fst (save_last_posted_date w s st)) = Some (strip s)"
    using assms
    by (simp add: save_last_posted_date_def read_last_posted_date_def read_write_newlines)
  have 1: "\<exists>pre m post.
            read_last_posted_date (fst (save_last_posted_date w s st)) = Some m
          \<and> s = pre @ m @ post
          \<and> list_all is_space pre \<and> list_all is_space post
          \<and> (m = [] \<or> \<not> is_space (hd m) \<and> \<not> is_space (last m))"
    unfolding r using strip_decomposition [of s] by blast
  have 2: "fst (save_last_posted_date w s (st\<lparr>last_posted_file := old\<rparr>))
           = fst (save_last_posted_date w s st)"
    by (simp add: save_last_posted_date_def)
  have 3: "os_name w = Posix \<or> LF \<notin> set s \<longrightarrow>
            last_posted_file (fst (save_last_posted_date w s st)) = Some s"
    by (auto simp: save_last_posted_date_def write_newlines_same)
  have 4: "read_last_posted_date (st\<lparr>last_posted_file := None\<rparr>) = None"
    by (simp add: read_last_posted_date_def)
  show ?thesis using 1 2 3 4 main_body_saves [of cfg w lpd spd e cs] by blast
qed

theorem cursor_round_trip_witness:
  "CR \<notin> set (''  Mon, 01 Jan 2024 10:00:00 +0000'' @ [LF])
   \<and> read_last_posted_date
         (fst (save_last_posted_date (ex_world []) (''  Mon, 01 Jan 2024 10:00:00 +0000'' @ [LF])
                 (ex_state (Some ''old''))))
       = Some ''Mon, 01 Jan 2024 10:00:00 +0000''
   \<and> last_posted_file
         (fst (save_last_posted_date (ex_world []) (''  Mon, 01 Jan 2024 10:00:00 +0000'' @ [LF])
                 (ex_state (Some ''old''))))
       = Some (''  Mon, 01 Jan 2024 10:00:00 +0000'' @ [LF])
   \<and> read_last_posted_date
         (fst (save_last_posted_date ((ex_world [])\<lparr>os_name := Windows\<rparr>) [CHR ''a'', LF, CHR ''b'']
                 (ex_state None)))
       = Some [CHR ''a'', LF, CHR ''b'']
   \<and> last_posted_file
         (fst (save_last_posted_date ((ex_world [])\<lparr>os_name := Windows\<rparr>) [CHR ''a'', LF, CHR ''b'']
                 (ex_state None)))
       = Some [CHR ''a'', CR, LF, CHR ''b'']
   \<and> read_last_posted_date (ex_state None) = None
   \<and> saves (fst (snd (main_body ex_cfg (ex_world [ex_A]) None None ex_A (None, ex_state None))))
       = [''1'']"
proof -
  let ?s = "''  Mon, 01 Jan 2024 10:00:00 +0000'' @ [LF]"
  have h: "CR \<notin> set ?s" by simp
  have a: "read_last_posted_date (fst (save_last_posted_date (ex_world []) ?s (ex_state (Some ''old''))))
       = Some ''Mon, 01 Jan 2024 10:00:00 +0000''" by code_simp
  have p: "os_name (ex_world []) = Posix" by (simp add: ex_world_def)
  from cursor_round_trip [OF h, of "ex_world []" "ex_state (Some ''old'')"] p
  have b: "last_posted_file (fst (save_last_posted_date (ex_world []) ?s (ex_state (Some ''old''))))
       = Some ?s" by blast
  have c: "read_last_posted_date
         (fst (save_last_posted_date ((ex_world [])\<lparr>os_name := Windows\<rparr>) [CHR ''a'', LF, CHR ''b'']
                 (ex_state None)))
       = Some [CHR ''a'', LF, CHR ''b'']" by code_simp
  have d: "last_posted_file
         (fst (save_last_posted_date ((ex_world [])\<lparr>os_name := Windows\<rparr>) [CHR ''a'', LF, CHR ''b'']
                 (ex_state None)))
       = Some [CHR ''a'', CR, LF, CHR ''b'']" by code_simp
  have e: "read_last_posted_date (ex_state None) = None" by code_simp
  have f: "saves (fst (snd (main_body ex_cfg (ex_world [ex_A]) None None ex_A (None, ex_state None))))
       = [''1'']" by code_simp
  show ?thesis
    by (rule conjI [OF h conjI [OF a conjI [OF b conjI [OF c conjI [OF d conjI [OF e f]]]]]])
qed

text \<open>
  For a string that holds a carriage return the round trip fails: the file holds
  \<open>a\<close>, carriage return, \<open>b\<close>, as written, and reading turns the carriage return
  into a line feed.
\<close>

theorem cursor_round_trip_counterexample:
  "read_last_posted_date
       (fst (save_last_posted_date (ex_world []) [CHR ''a'', CR, CHR ''b''] (ex_state None)))
     = Some [CHR ''a'', LF, CHR ''b'']
   \<and> strip [CHR ''a'', CR, CHR ''b''] = [CHR ''a'', CR, CHR ''b'']
   \<and> last_posted_file
       (fst (save_last_posted_date (ex_world []) [CHR ''a'', CR, CHR ''b''] (ex_state None)))
     = Some [CHR ''a'', CR, CHR ''b'']"
  by code_simp

section \<open>Media\<close>

lemma endswith_last:
  assumes "endswith s suf" and "suf \<noteq> []"
  shows "last s = last suf"
proof -
  from assms have d: "drop (length s - length suf) s = suf" and l: "length suf \<le> length s"
    by (simp_all add: endswith_def)
  have "length s - length suf < length s" using l assms(2) by (cases suf) auto
  then have "last (drop (length s - length suf) s) = last s" by (rule last_drop)
  with d show ?thesis by simp
qed

lemma webp_not_image:
  assumes "endswith s ''.webp''"
  shows "\<not> endswith_any s [''.jpg'', ''.jpeg'', ''.png'', ''.gif'']"
proof
  assume "endswith_any s [''.jpg'', ''.jpeg'', ''.png'', ''.gif'']"
  then consider "endswith s ''.jpg''" | "endswith s ''.jpeg''" | "endswith s ''.png''"
    | "endswith s ''.gif''"
    by (auto simp: endswith_any_def)
  then show False
    using endswith_last [OF assms] by cases (auto dest: endswith_last)
qed

lemma main_media_first:
  assumes "media_key_get e = Some (m # ms)" and "url m = Some u"
  shows "main_media w e =
           (if endswith_any (lower u) [''.jpg'', ''.jpeg'', ''.png'', ''.gif'']
            then download_image w u else ([], Inr None))"
  using assms by (simp add: main_media_def is_image_def)

text \<open>
  C7. For an entry that passes the filters and whose first media candidate under the
  selected key has the URL \<open>u\<close>: the run requests \<open>u\<close> exactly when \<open>u\<close>, in lower
  case, ends in \<open>.jpg\<close>, \<open>.jpeg\<close>, \<open>.png\<close> or \<open>.gif\<close>, and requests nothing else;
  the candidates after the first play no role; a URL ending in \<open>.webp\<close> is not an
  image; and when the URL is not an image, or the response has a status other than 200,
  the media step ends with no image and no error, and the post made is the text-only
  one.
\<close>

theorem media_gating:
  assumes "media_key_get e = Some (m # ms)" and "url m = Some u"
    and "eligible cfg w lpd spd e"
    and "main_body cfg w lpd spd e cs = (cs', evs, r)"
  shows "http_gets evs = (if is_image (url m) = Inr True then [u] else [])
       \<and> (\<forall>e' ms'. media_key_get e' = Some (m # ms') \<longrightarrow> main_media w e' = main_media w e)
       \<and> (is_image (url m) = Inr True
            \<longleftrightarrow> endswith (lower u) ''.jpg'' \<or> endswith (lower u) ''.jpeg''
               \<or> endswith (lower u) ''.png'' \<or> endswith (lower u) ''.gif'')
       \<and> (endswith (lower u) ''.webp'' \<longrightarrow> is_image (url m) = Inr False)
       \<and> (is_image (url m) = Inr False \<or>
           (\<exists>status_code content. httpx_get w u = Some (status_code, content) \<and> status_code \<noteq> 200)
            \<longrightarrow> snd (main_media w e) = Inr None
              \<and> (r = None \<longrightarrow>
                    published_posts evs = [SendPost (truncate_text cfg (title e) (link e) 300)]))"
proof -
  let ?img = "endswith_any (lower u) [''.jpg'', ''.jpeg'', ''.png'', ''.gif'']"
  have ii: "is_image (url m) = Inr ?img" using assms(2) by (simp add: is_image_def)
  have mm: "main_media w e = (if ?img then download_image w u else ([], Inr None))"
    by (rule main_media_first [OF assms(1,2)])
  obtain client st where cs: "cs = (client, st)" by (cases cs)
  obtain client' st' where cs': "cs' = (client', st')" by (cases cs')
  note be = main_body_eligible [OF assms(3) assms(4) [unfolded cs cs']]
  have g: "http_gets evs = http_gets (fst (main_media w e))"
    using be by (cases r) auto
  have 1: "http_gets evs = (if is_image (url m) = Inr True then [u] else [])"
    unfolding g ii mm by (simp add: download_image_def)
  have 2: "\<forall>e' ms'. media_key_get e' = Some (m # ms') \<longrightarrow> main_media w e' = main_media w e"
    using assms(2) mm by (simp add: main_media_first)
  have 3: "is_image (url m) = Inr True
            \<longleftrightarrow> endswith (lower u) ''.jpg'' \<or> endswith (lower u) ''.jpeg''
               \<or> endswith (lower u) ''.png'' \<or> endswith (lower u) ''.gif''"
    unfolding ii by (simp add: endswith_any_def)
  have 4: "endswith (lower u) ''.webp'' \<longrightarrow> is_image (url m) = Inr False"
    unfolding ii using webp_not_image by simp
  have n: "snd (main_media w e) = Inr None"
    if "is_image (url m) = Inr False \<or>
        (\<exists>status_code content. httpx_get w u = Some (status_code, content) \<and> status_code \<noteq> 200)"
    using that unfolding ii mm by (auto simp: download_image_def)
  have p: "published_posts evs = [SendPost (truncate_text cfg (title e) (link e) 300)]"
    if "snd (main_media w e) = Inr None" and "r = None"
    using be that by (auto simp: post_to_bluesky_def)
  show ?thesis using 1 2 3 4 n p by blast
qed

theorem media_gating_witness:
  "media_key_get ex_png = Some [Media (Some ''http://x/i.PNG''), Media (Some ''http://x/j.gif'')]
   \<and> eligible ex_cfg (ex_world [ex_png]) None None ex_png
   \<and> main_body ex_cfg (ex_world [ex_png]) None None ex_png (None, ex_state None)
       = ((Some (Client True), \<lparr>last_posted_file = Some ''2'', logins = 1\<rparr>),
          [HttpGet ''http://x/i.PNG'', LoginAttempt,
           Publish ex_png
             (SendImage [Text ''P '', Link ''Read post'' ''http://x/a''] ''PNG''
                ''Image coming from the Fediverse''),
           Save ''2''],
          None)
   \<and> is_image (Some ''http://x/i.PNG'') = Inr True
   \<and> published_posts
         (fst (snd (main_body ex_cfg (ex_world [ex_webp]) None None ex_webp (None, ex_state None))))
       = [SendPost [Text ''W '', Link ''Read post'' ''http://x/a'']]
   \<and> http_gets
         (fst (snd (main_body ex_cfg (ex_world [ex_webp]) None None ex_webp (None, ex_state None))))
       = []"
proof -
  let ?evs = "[HttpGet ''http://x/i.PNG'', LoginAttempt,
           Publish ex_png
             (SendImage [Text ''P '', Link ''Read post'' ''http://x/a''] ''PNG''
                ''Image coming from the Fediverse''),
           Save ''2'']"
  have h1: "media_key_get ex_png
              = Some (Media (Some ''http://x/i.PNG'') # [Media (Some ''http://x/j.gif'')])"
    by code_simp
  have h2: "url (Media (Some ''http://x/i.PNG'')) = Some ''http://x/i.PNG''" by simp
  have h3: "eligible ex_cfg (ex_world [ex_png]) None None ex_png" by code_simp
  have h4: "main_body ex_cfg (ex_world [ex_png]) None None ex_png (None, ex_state None)
       = ((Some (Client True), \<lparr>last_posted_file = Some ''2'', logins = 1\<rparr>), ?evs, None)"
    by code_simp
  from media_gating [OF h1 h2 h3 h4]
  have "http_gets ?evs
          = (if is_image (url (Media (Some ''http://x/i.PNG''))) = Inr True
             then [''http://x/i.PNG''] else [])"
    by blast
  then have i: "is_image (Some ''http://x/i.PNG'') = Inr True"
    by (simp split: if_splits)
  let ?b = "main_body ex_cfg (ex_world [ex_webp]) None None ex_webp (None, ex_state None)"
  have w1: "media_key_get ex_webp = Some (Media (Some ''http://x/i.webp'') # [])"
    by code_simp
  have w2: "url (Media (Some ''http://x/i.webp'')) = Some ''http://x/i.webp''" by simp
  have w3: "eligible ex_cfg (ex_world [ex_webp]) None None ex_webp" by code_simp
  have w4: "?b = (fst ?b, fst (snd ?b), snd (snd ?b))" by simp
  have w5: "endswith (lower ''http://x/i.webp'') ''.webp''" by code_simp
  have w6: "snd (snd ?b) = None" by code_simp
  note g = media_gating [OF w1 w2 w3 w4]
  from g w5 have n: "is_image (url (Media (Some ''http://x/i.webp''))) = Inr False" by blast
  from g n w6 have p: "published_posts (fst (snd ?b))
       = [SendPost (truncate_text ex_cfg (title ex_webp) (link ex_webp) 300)]" by blast
  have tt: "truncate_text ex_cfg (title ex_webp) (link ex_webp) 300
              = [Text ''W '', Link ''Read post'' ''http://x/a'']" by code_simp
  from g n have q: "http_gets (fst (snd ?b)) = []" by simp
  show ?thesis
    by (rule conjI [OF h1 [simplified] conjI [OF h3 conjI [OF h4 conjI [OF i
          conjI [OF p [unfolded tt] q]]]]])
qed

text \<open>
  C10. For an entry that passes the filters and whose media list under the selected
  key is not empty: when the first candidate has no \<open>url\<close>, \<open>is_image\<close> is called on
  \<open>None\<close> and the iteration, and with it the loop, ends with \<open>AttributeError\<close>,
  with no call made and the state unchanged; and the media step ends with that error
  only in this case.
\<close>

theorem media_url_missing_aborts:
  assumes "eligible cfg w lpd spd e" and "media_key_get e = Some (m # ms)"
  shows "(url m = None \<longrightarrow>
            main_body cfg w lpd spd e cs = (cs, [], Some AttributeError)
          \<and> main_loop cfg w lpd spd (e # es) cs = (cs, [], Some AttributeError))
       \<and> (snd (main_media w e) = Inl AttributeError \<longleftrightarrow> url m = None)"
proof -
  have mm: "url m = None \<Longrightarrow> main_media w e = ([], Inl AttributeError)"
    using assms(2) by (simp add: main_media_def is_image_def)
  have b: "main_body cfg w lpd spd e cs = (cs, [], Some AttributeError)" if "url m = None"
    using assms(1) mm [OF that]
    by (auto simp: main_body_def eligible_def Let_def split: option.splits prod.splits)
  have l: "main_loop cfg w lpd spd (e # es) cs = (cs, [], Some AttributeError)" if "url m = None"
    by (simp add: b [OF that])
  have t: "snd (main_media w e) \<noteq> Inl AttributeError" if "url m = Some u" for u
    using assms(2) that
    by (auto simp: main_media_def is_image_def download_image_def split: bool.splits option.splits)
  show ?thesis using mm b l t by (cases "url m") auto
qed

theorem media_url_missing_aborts_witness:
  "eligible ex_cfg (ex_world [ex_no_url]) None None ex_no_url
   \<and> media_key_get ex_no_url = Some [Media None]
   \<and> main_body ex_cfg (ex_world [ex_no_url]) None None ex_no_url (None, ex_state None)
       = ((None, ex_state None), [], Some AttributeError)
   \<and> main ex_cfg (ex_world [ex_no_url]) (ex_state None)
       = (ex_state None, [], Some AttributeError)"
proof -
  have h1: "eligible ex_cfg (ex_world [ex_no_url]) None None ex_no_url" by code_simp
  have h2: "media_key_get ex_no_url = Some (Media None # [])" by code_simp
  have u: "url (Media None) = None" by simp
  from media_url_missing_aborts [OF h1 h2] u
  have b: "main_body ex_cfg (ex_world [ex_no_url]) None None ex_no_url (None, ex_state None)
       = ((None, ex_state None), [], Some AttributeError)" by blast
  have m: "main ex_cfg (ex_world [ex_no_url]) (ex_state None)
       = (ex_state None, [], Some AttributeError)" by code_simp
  show ?thesis by (rule conjI [OF h1 conjI [OF h2 conjI [OF b m]]])
qed

section \<open>The splitter\<close>

lemma py_in_length: "py_in sub s \<Longrightarrow> length sub \<le> length s"
  by (induction s) (auto dest: prefix_length_le)

lemma prefix_butlast_append: "prefix (butlast xs) (xs @ ys)"
proof -
  have "prefix (butlast xs) xs" by (simp add: butlast_conv_take take_is_prefix)
  moreover have "prefix xs (xs @ ys)" by simp
  ultimately show ?thesis by (rule prefix_order.trans)
qed

lemma split1_first_occurrence:
  assumes "sep \<noteq> []" and "py_in sep s"
  shows "\<exists>pre post. split1 sep s = [pre, post] \<and> s = pre @ sep @ post
           \<and> \<not> py_in sep (pre @ butlast sep)"
  using assms(2)
proof (induction s)
  case Nil
  then show ?case using assms(1) by simp
next
  case (Cons c cs)
  have short: "\<not> py_in sep (butlast sep)"
  proof
    assume "py_in sep (butlast sep)"
    then have "length sep \<le> length (butlast sep)" by (rule py_in_length)
    moreover have "length (butlast sep) < length sep"
      using assms(1) by (cases sep rule: rev_cases) simp_all
    ultimately show False by linarith
  qed
  show ?case
  proof (cases "prefix sep (c # cs)")
    case True
    then obtain post where eq: "c # cs = sep @ post" by (auto simp: prefix_def)
    have "split1 sep (c # cs) = [[], drop (length sep) (c # cs)]" using True by simp
    moreover have "drop (length sep) (c # cs) = post" unfolding eq by simp
    ultimately have "split1 sep (c # cs) = [[], post]" by simp
    moreover have "c # cs = [] @ sep @ post" using eq by simp
    moreover have "\<not> py_in sep ([] @ butlast sep)" using short by simp
    ultimately show ?thesis by blast
  next
    case False
    then have "py_in sep cs" using Cons.prems by simp
    from Cons.IH [OF this] obtain pre post where
      ih: "split1 sep cs = [pre, post]" "cs = pre @ sep @ post"
      "\<not> py_in sep (pre @ butlast sep)" by blast
    have "prefix (c # pre @ butlast sep) (c # cs)"
      unfolding ih(2) by (simp add: prefix_butlast_append)
    then have "\<not> prefix sep (c # pre @ butlast sep)"
      using False prefix_order.trans by blast
    then have "\<not> py_in sep ((c # pre) @ butlast sep)" using ih(3) by simp
    moreover have "split1 sep (c # cs) = [c # pre, post]" using False ih(1) by simp
    moreover have "c # cs = (c # pre) @ sep @ post" using ih(2) by simp
    ultimately show ?thesis by blast
  qed
qed

text \<open>
  C5 (amended). The text \<open>main\<close> passes to \<open>truncate_text\<close> is the title of the
  entry. When a splitter is configured, is not empty and occurs in the title, the body
  of the message is the text after the first occurrence of the splitter in the title,
  with surrounding whitespace stripped; otherwise the body is the title. The description
  of the entry plays no part. The message posted holds a prefix of the body, the whole
  body when body, space and label fit in 300 characters, then a space and the link
  \<open>Read post\<close> to the entry's link.
\<close>

theorem splitter_rule_on_title:
  assumes "eligible cfg w lpd spd e" and "main_body cfg w lpd spd e cs = (cs', evs, None)"
  shows "\<exists>p body shown. published_posts evs = [p]
         \<and> post_message p = [Text (shown @ '' ''), Link ''Read post'' (link e)]
         \<and> prefix shown body
         \<and> (length (body @ '' '' @ ''Read post'') \<le> 300 \<longrightarrow> shown = body)
         \<and> (case SPLITTER cfg of
               None \<Rightarrow> body = title e
             | Some sp \<Rightarrow>
                 if sp \<noteq> [] \<and> py_in sp (title e)
                 then \<exists>pre post. title e = pre @ sp @ post
                        \<and> \<not> py_in sp (pre @ butlast sp) \<and> body = strip post
                 else body = title e)"
proof -
  obtain client st where cs: "cs = (client, st)" by (cases cs)
  obtain client' st' where cs': "cs' = (client', st')" by (cases cs')
  from main_body_eligible [OF assms(1) assms(2) [unfolded cs cs']]
  obtain img where
    p: "published_posts evs = [post_to_bluesky (truncate_text cfg (title e) (link e) 300) img]"
    by auto
  let ?body = "case SPLITTER cfg of
                 None \<Rightarrow> title e
               | Some sp \<Rightarrow> if sp \<noteq> [] \<and> py_in sp (title e)
                           then strip (split1 sp (title e) ! 1) else title e"
  have m: "post_message (post_to_bluesky (truncate_text cfg (title e) (link e) 300) img)
           = [Text (take 291 ?body @ '' ''), Link ''Read post'' (link e)]"
    by (simp only: post_message_post_to_bluesky truncate_text_eq)
  have pf: "prefix (take 291 ?body) ?body" by (rule take_is_prefix)
  have fit: "length (?body @ '' '' @ ''Read post'') \<le> 300 \<longrightarrow> take 291 ?body = ?body"
    by simp
  have c: "case SPLITTER cfg of
               None \<Rightarrow> ?body = title e
             | Some sp \<Rightarrow>
                 if sp \<noteq> [] \<and> py_in sp (title e)
                 then \<exists>pre post. title e = pre @ sp @ post
                        \<and> \<not> py_in sp (pre @ butlast sp) \<and> ?body = strip post
                 else ?body = title e"
  proof (cases "SPLITTER cfg")
    case None
    then show ?thesis by simp
  next
    case (Some sp)
    show ?thesis
    proof (cases "sp \<noteq> [] \<and> py_in sp (title e)")
      case True
      from split1_first_occurrence [of sp "title e"] True obtain pre post where
        "split1 sp (title e) = [pre, post]" "title e = pre @ sp @ post"
        "\<not> py_in sp (pre @ butlast sp)" by blast
      then show ?thesis using Some True by auto
    next
      case False
      then show ?thesis using Some by auto
    qed
  qed
  show ?thesis using p m pf fit c by blast
qed

theorem splitter_rule_on_title_witness:
  "eligible ex_cfg (ex_world [ex_split_title]) None None ex_split_title
   \<and> main_body ex_cfg (ex_world [ex_split_title]) None None ex_split_title (None, ex_state None)
       = ((Some (Client True), \<lparr>last_posted_file = Some ''2'', logins = 1\<rparr>),
          [LoginAttempt,
           Publish ex_split_title (SendPost [Text ''body '', Link ''Read post'' ''http://x/a'']),
           Save ''2''],
          None)
   \<and> title ex_split_title = ''intro | body ''
   \<and> SPLITTER ex_cfg = Some ''|''"
proof -
  have h1: "eligible ex_cfg (ex_world [ex_split_title]) None None ex_split_title" by code_simp
  have h2: "main_body ex_cfg (ex_world [ex_split_title]) None None ex_split_title
              (None, ex_state None)
       = ((Some (Client True), \<lparr>last_posted_file = Some ''2'', logins = 1\<rparr>),
          [LoginAttempt,
           Publish ex_split_title (SendPost [Text ''body '', Link ''Read post'' ''http://x/a'']),
           Save ''2''],
          None)" by code_simp
  have t: "title ex_split_title = ''intro | body ''" by code_simp
  have s: "SPLITTER ex_cfg = Some ''|''" by code_simp
  from splitter_rule_on_title [OF h1 h2] h1 h2 t s show ?thesis by blast
qed

text \<open>
  The splitter is not looked up in the description: for an entry with the title \<open>T\<close>
  and the description \<open>a|b\<close> the body posted is the title, not \<open>b\<close>.
\<close>

theorem splitter_rule_counterexample:
  "SPLITTER ex_cfg = Some ''|''
   \<and> description ex_split_description = ''a|b''
   \<and> py_in ''|'' (description ex_split_description)
   \<and> strip (split1 ''|'' (description ex_split_description) ! 1) = ''b''
   \<and> title ex_split_description = ''T''
   \<and> main ex_cfg (ex_world [ex_split_description]) (ex_state None)
       = (\<lparr>last_posted_file = Some ''2'', logins = 1\<rparr>,
          [LoginAttempt,
           Publish ex_split_description
             (SendPost [Text ''T '', Link ''Read post'' ''http://x/a'']),
           Save ''2''],
          None)"
  by code_simp

end
